theory Spec2Isabelle
  imports Main "HOL-Library.Char_ord" "HOL-Library.List_Lexorder"
begin

section \<open>Python strings\<close>

text \<open>
  The script \<^verbatim>\<open>mdtoc.py\<close> works on Python \<^verbatim>\<open>str\<close> values. A string is modelled as
  a \<^typ>\<open>string\<close> whose characters are the code points below 256 (the Latin-1 range), so
  that \<^verbatim>\<open>str.isspace\<close> and \<^verbatim>\<open>str.lower\<close> can be written out as Python defines them
  on that range. Text outside that range is outside the model.
\<close>

text \<open>
  \<^verbatim>\<open>str.split()\<close>, \<^verbatim>\<open>str.rstrip()\<close>: the whitespace characters are those with
  \<^verbatim>\<open>c.isspace()\<close>; below 256 these are TAB, LF, VT, FF, CR, FS, GS, RS, US, space,
  NEL (0x85) and NBSP (0xA0).
\<close>

definition isspace :: "char \<Rightarrow> bool" where
  "isspace c \<longleftrightarrow> c \<in> set [CHR 0x09, CHR 0x0A, CHR 0x0B, CHR 0x0C, CHR 0x0D,
      CHR 0x1C, CHR 0x1D, CHR 0x1E, CHR 0x1F, CHR '' '', CHR 0x85, CHR 0xA0]"

text \<open>
  \<^verbatim>\<open>str.lower()\<close>: below 256 the cased upper letters are A-Z and 0xC0-0xDE without the
  multiplication sign 0xD7; each is mapped to the code point 32 above it.
\<close>

definition upper_letters :: string where
  "upper_letters = ''ABCDEFGHIJKLMNOPQRSTUVWXYZ'' @
     [CHR 0xC0, CHR 0xC1, CHR 0xC2, CHR 0xC3, CHR 0xC4, CHR 0xC5, CHR 0xC6, CHR 0xC7,
      CHR 0xC8, CHR 0xC9, CHR 0xCA, CHR 0xCB, CHR 0xCC, CHR 0xCD, CHR 0xCE, CHR 0xCF,
      CHR 0xD0, CHR 0xD1, CHR 0xD2, CHR 0xD3, CHR 0xD4, CHR 0xD5, CHR 0xD6,
      CHR 0xD8, CHR 0xD9, CHR 0xDA, CHR 0xDB, CHR 0xDC, CHR 0xDD, CHR 0xDE]"

definition lower_letters :: string where
  "lower_letters = ''abcdefghijklmnopqrstuvwxyz'' @
     [CHR 0xE0, CHR 0xE1, CHR 0xE2, CHR 0xE3, CHR 0xE4, CHR 0xE5, CHR 0xE6, CHR 0xE7,
      CHR 0xE8, CHR 0xE9, CHR 0xEA, CHR 0xEB, CHR 0xEC, CHR 0xED, CHR 0xEE, CHR 0xEF,
      CHR 0xF0, CHR 0xF1, CHR 0xF2, CHR 0xF3, CHR 0xF4, CHR 0xF5, CHR 0xF6,
      CHR 0xF8, CHR 0xF9, CHR 0xFA, CHR 0xFB, CHR 0xFC, CHR 0xFD, CHR 0xFE]"

definition lower_char :: "char \<Rightarrow> char" where
  "lower_char c = (case map_of (zip upper_letters lower_letters) c of None \<Rightarrow> c | Some l \<Rightarrow> l)"

definition lower :: "string \<Rightarrow> string" where
  "lower s = map lower_char s"

text \<open>\<^verbatim>\<open>s.startswith(p)\<close>\<close>

definition startswith :: "string \<Rightarrow> string \<Rightarrow> bool" where
  "startswith s p \<longleftrightarrow> take (length p) s = p"

text \<open>\<^verbatim>\<open>s.rstrip()\<close>: the trailing whitespace is removed.\<close>

definition rstrip :: "string \<Rightarrow> string" where
  "rstrip s = rev (dropWhile isspace (rev s))"

text \<open>
  \<^verbatim>\<open>s.split()\<close>: runs of whitespace separate the tokens, and leading and trailing
  whitespace gives no empty token. \<open>split_from word s\<close> scans \<open>s\<close> with the token read so
  far in \<open>word\<close>.
\<close>

fun split_from :: "string \<Rightarrow> string \<Rightarrow> string list" where
  "split_from word [] = (if word = [] then [] else [word])"
| "split_from word (c # cs) =
     (if isspace c
      then (if word = [] then split_from [] cs else word # split_from [] cs)
      else split_from (word @ [c]) cs)"

definition split :: "string \<Rightarrow> string list" where
  "split s = split_from [] s"

text \<open>\<^verbatim>\<open>sep.join(xs)\<close>\<close>

fun join :: "string \<Rightarrow> string list \<Rightarrow> string" where
  "join sep [] = []"
| "join sep [x] = x"
| "join sep (x # y # ys) = x @ sep @ join sep (y # ys)"

text \<open>\<^verbatim>\<open>str(i)\<close> for an integer: decimal digits, with a minus sign when negative.\<close>

definition digit_char :: "nat \<Rightarrow> char" where
  "digit_char d = ''0123456789'' ! d"

fun str_nat :: "nat \<Rightarrow> string" where
  "str_nat n = (if n < 10 then [digit_char n] else str_nat (n div 10) @ [digit_char (n mod 10)])"

declare str_nat.simps [simp del]

definition str_int :: "int \<Rightarrow> string" where
  "str_int i = (if i < 0 then ''-'' @ str_nat (nat (- i)) else str_nat (nat i))"

text \<open>The exceptions of the script that no handler of its own catches.\<close>

datatype py_error = IndexError

text \<open>\<^verbatim>\<open>xs[i]\<close> on a list of length \<open>n\<close>: the indices from \<open>0\<close> to \<open>n - 1\<close> read from the front,
  those from \<open>- n\<close> to \<open>- 1\<close> from the back, and every other index raises \<^verbatim>\<open>IndexError\<close>.\<close>

definition py_index :: "'a list \<Rightarrow> int \<Rightarrow> py_error + 'a" where
  "py_index xs i =
     (if 0 \<le> i \<and> i < int (length xs) then Inr (xs ! nat i)
      else if i < 0 \<and> - int (length xs) \<le> i then Inr (xs ! nat (int (length xs) + i))
      else Inl IndexError)"


section \<open>The heading extractor: \<^verbatim>\<open>parse_file\<close>\<close>

text \<open>The f-string \<^verbatim>\<open>f"[{title}](#{link})"\<close>.\<close>

definition toc_line :: "string \<Rightarrow> string \<Rightarrow> string" where
  "toc_line title link = ''['' @ title @ ''](#'' @ link @ '')''"

text \<open>
  The body of the \<^verbatim>\<open>for line in file_handle\<close> loop. The state is the pair of the
  variables \<^verbatim>\<open>fenced_code\<close> and \<^verbatim>\<open>table_of_contents\<close>. \<^verbatim>\<open>tokens[0]\<close> raises
  \<^verbatim>\<open>IndexError\<close> on an empty token list, and \<^verbatim>\<open>tokens[1:]\<close> is the rest.
\<close>

definition parse_line :: "string list \<Rightarrow> bool \<times> string list \<Rightarrow> string \<Rightarrow> py_error + bool \<times> string list" where
  "parse_line headings st line =
     (let fenced_code = (if startswith line ''```'' then \<not> fst st else fst st);
          table_of_contents = snd st
      in if \<not> fenced_code \<and> startswith line ''#''
         then (case split (rstrip line) of
                 [] \<Rightarrow> Inl IndexError
               | marker # rest \<Rightarrow>
                   if marker \<in> set headings
                   then Inr (fenced_code,
                          table_of_contents @ [toc_line (join '' '' rest) (lower (join ''-'' rest))])
                   else Inr (fenced_code, table_of_contents))
         else Inr (fenced_code, table_of_contents))"

fun parse_loop :: "string list \<Rightarrow> bool \<times> string list \<Rightarrow> string list \<Rightarrow> py_error + bool \<times> string list" where
  "parse_loop headings st [] = Inr st"
| "parse_loop headings st (line # file_handle) =
     (case parse_line headings st line of
        Inl e \<Rightarrow> Inl e
      | Inr st' \<Rightarrow> parse_loop headings st' file_handle)"

definition parse_file :: "string list \<Rightarrow> string list \<Rightarrow> py_error + string list" where
  "parse_file file_handle headings =
     (case parse_loop headings (False, []) file_handle of
        Inl e \<Rightarrow> Inl e
      | Inr st \<Rightarrow> Inr (snd st))"

text \<open>
  The notions of the specification the extractor is compared with. A fence line begins
  with three backticks; a position is inside a fenced block when an odd number of fence
  lines precedes it (strict alternation of opening and closing).
\<close>

definition is_fence :: "string \<Rightarrow> bool" where
  "is_fence line \<longleftrightarrow> startswith line ''```''"

definition inside_fence :: "string list \<Rightarrow> bool" where
  "inside_fence pre \<longleftrightarrow> odd (length (filter is_fence pre))"

text \<open>Auxiliary functions of the proofs: the flag after a line, and what a line and a
  sequence of lines add to the table of contents.\<close>

definition next_fence :: "bool \<Rightarrow> string \<Rightarrow> bool" where
  "next_fence fenced line = (if is_fence line then \<not> fenced else fenced)"

definition line_entries :: "string list \<Rightarrow> bool \<Rightarrow> string \<Rightarrow> string list" where
  "line_entries headings fenced line =
     (if \<not> fenced \<and> startswith line ''#''
      then (case split line of
              [] \<Rightarrow> []
            | marker # rest \<Rightarrow>
                if marker \<in> set headings
                then [toc_line (join '' '' rest) (lower (join ''-'' rest))] else [])
      else [])"

fun entries_from :: "string list \<Rightarrow> bool \<Rightarrow> string list \<Rightarrow> string list" where
  "entries_from headings fenced [] = []"
| "entries_from headings fenced (line # rest) =
     line_entries headings (next_fence fenced line) line
       @ entries_from headings (next_fence fenced line) rest"


section \<open>The level set: \<^verbatim>\<open>_get_heading_whitelist\<close>\<close>

text \<open>
  What the script does to the outside: a line printed on the console, and a text put on
  the Windows clipboard. A run is described by the list of its effects, in order.
\<close>

datatype effect = Print string | SetClipboard string

definition WHITELIST :: "string list" where
  "WHITELIST = [''#'', ''##'', ''###'', ''####'', ''#####'', ''######'']"

text \<open>
  The \<^verbatim>\<open>for i in args\<close> loop, which stands inside the \<^verbatim>\<open>try\<close> block: the first
  \<^verbatim>\<open>IndexError\<close> of \<^verbatim>\<open>WHITELIST[i - 1]\<close> leaves the loop, with \<open>i\<close> the value that
  raised and \<^verbatim>\<open>user_whitelist\<close> as collected so far.
\<close>

fun whitelist_loop :: "int list \<Rightarrow> string list \<Rightarrow> string list \<times> int option" where
  "whitelist_loop [] user_whitelist = (user_whitelist, None)"
| "whitelist_loop (i # args) user_whitelist =
     (case py_index WHITELIST (i - 1) of
        Inl e \<Rightarrow> (user_whitelist, Some i)
      | Inr heading \<Rightarrow> whitelist_loop args (user_whitelist @ [heading]))"

text \<open>
  \<^verbatim>\<open>args.whitelist\<close> is \<^verbatim>\<open>None\<close> without the option \<^verbatim>\<open>-w\<close> and a list of integers
  with it; \<^verbatim>\<open>if args\<close> is false for \<^verbatim>\<open>None\<close> and for the empty list. The result is
  \<^verbatim>\<open>user_whitelist or WHITELIST\<close>, with what was printed.
\<close>

definition get_heading_whitelist :: "int list option \<Rightarrow> string list \<times> effect list" where
  "get_heading_whitelist args =
     (let (user_whitelist, printed) =
            (case args of
               None \<Rightarrow> ([], [])
             | Some xs \<Rightarrow>
                 if xs = [] then ([], [])
                 else (case whitelist_loop xs [] of
                         (user_whitelist, None) \<Rightarrow> (user_whitelist, [])
                       | (user_whitelist, Some i) \<Rightarrow>
                           (user_whitelist, [Print (''[-w] Invalid argument: '' @ str_int i)])))
      in (if user_whitelist = [] then WHITELIST else user_whitelist, printed))"


section \<open>Path validation: \<^verbatim>\<open>_valid_path\<close>\<close>

text \<open>
  A \<^verbatim>\<open>pathlib.Path\<close> as the script observes it: what \<^verbatim>\<open>path.exists()\<close> and
  \<^verbatim>\<open>path.suffix\<close> give, and what opening and reading the file gives, either the
  \<^verbatim>\<open>strerror\<close> of an \<^verbatim>\<open>OSError\<close> or the lines of the file.
\<close>

record file_path =
  path_exists :: bool
  path_suffix :: string
  path_read :: "string + string list"

definition invalid_path_message :: string where
  "invalid_path_message = ''ERROR:  Invalid path or destination.''"

definition invalid_format_message :: string where
  "invalid_format_message = ''ERROR:  Expected file format is '' @ [CHR 0x27] @ ''.md'' @ [CHR 0x27]
     @ '' or '' @ [CHR 0x27] @ ''.markdown'' @ [CHR 0x27]"

definition valid_path :: "file_path \<Rightarrow> bool \<times> effect list" where
  "valid_path p =
     (if \<not> path_exists p then (False, [Print invalid_path_message])
      else if lower (path_suffix p) \<notin> set [''.md'', ''.markdown'']
           then (False, [Print invalid_format_message])
           else (True, []))"


section \<open>The invocation layer: \<^verbatim>\<open>main\<close> and the script body\<close>

text \<open>The namespace that \<^verbatim>\<open>get_args\<close> returns; \<open>output_opt\<close> is its attribute
  \<^verbatim>\<open>output\<close>.\<close>

record args =
  path :: file_path
  alphabetical :: bool
  clipboard :: bool
  output_opt :: bool
  whitelist :: "int list option"

definition set_win_clipboard :: "string \<Rightarrow> effect list" where
  "set_win_clipboard out = [SetClipboard out]"

definition no_headers_message :: string where
  "no_headers_message = ''No Headers found.''"

text \<open>
  \<^verbatim>\<open>main\<close> returns an integer, or ends with an exception that its \<^verbatim>\<open>except OSError\<close>
  does not catch. \<^verbatim>\<open>sorted(results)\<close> orders the strings by code points, as the order
  on \<^typ>\<open>string\<close> does.
\<close>

definition main :: "args \<Rightarrow> (py_error + int) \<times> effect list" where
  "main a =
     (let (heading_whitelist, tr0) = get_heading_whitelist (whitelist a);
          (ok, tr1) = valid_path (path a)
      in if \<not> ok then (Inr 1, tr0 @ tr1)
         else (case path_read (path a) of
                 Inl strerror \<Rightarrow> (Inr 1, tr0 @ tr1 @ [Print strerror])
               | Inr file_handle \<Rightarrow>
                   (case parse_file file_handle heading_whitelist of
                      Inl e \<Rightarrow> (Inl e, tr0 @ tr1)
                    | Inr results \<Rightarrow>
                        if results = [] then (Inr 1, tr0 @ tr1 @ [Print no_headers_message])
                        else
                          (let results = (if alphabetical a then sort results else results);
                               tr2 = (if output_opt a then map Print results else []);
                               tr3 = (if clipboard a
                                      then set_win_clipboard (join [CHR 0x0A] results) else [])
                           in (Inr 0, tr0 @ tr1 @ tr2 @ tr3)))))"

text \<open>
  The \<^verbatim>\<open>if __name__ == "__main__"\<close> block: \<^verbatim>\<open>main(args)\<close> is called as a statement
  and its value is dropped. The interpreter ends with status 0 when the block ends, and
  with status 1 on an exception that nothing caught.
\<close>

definition script :: "args \<Rightarrow> int \<times> effect list" where
  "script a = (case main a of (Inl e, tr) \<Rightarrow> (1, tr) | (Inr r, tr) \<Rightarrow> (0, tr))"

text \<open>
  The alphabetical mode in the words of the specification: the entries, as pairs of title
  and anchor, in a stable order by title, then rendered.
\<close>

definition spec_sort_by_title :: "(string \<times> string) list \<Rightarrow> string list" where
  "spec_sort_by_title entries = map (\<lambda>(title, anchor). toc_line title anchor) (sort_key fst entries)"


section \<open>Properties of the string functions\<close>

lemma split_from_word_nonempty: "word \<noteq> [] \<Longrightarrow> split_from word s \<noteq> []"
  by (induction s arbitrary: word) auto

lemma split_from_trailing_space:
  "\<forall>c \<in> set ws. isspace c \<Longrightarrow> split_from word (s @ ws) = split_from word s"
proof (induction s arbitrary: word)
  case Nil
  then show ?case by (induction ws arbitrary: word) auto
next
  case (Cons c s)
  then show ?case by simp
qed

lemma rstrip_decompose: "\<exists>ws. s = rstrip s @ ws \<and> (\<forall>c \<in> set ws. isspace c)"
proof -
  have "rev s = takeWhile isspace (rev s) @ dropWhile isspace (rev s)"
    by simp
  then have "s = rev (dropWhile isspace (rev s)) @ rev (takeWhile isspace (rev s))"
    by (metis rev_append rev_rev_ident)
  moreover have "\<forall>c \<in> set (rev (takeWhile isspace (rev s))). isspace c"
    by (auto dest: set_takeWhileD)
  ultimately show ?thesis
    unfolding rstrip_def by blast
qed

lemma split_rstrip: "split (rstrip s) = split s"
proof -
  obtain ws where ws: "s = rstrip s @ ws" "\<forall>c \<in> set ws. isspace c"
    using rstrip_decompose by blast
  have "split_from [] (rstrip s @ ws) = split_from [] (rstrip s)"
    using ws(2) by (rule split_from_trailing_space)
  with ws(1) show ?thesis
    by (simp add: split_def)
qed

lemma hash_not_space: "\<not> isspace (CHR ''#'')"
  by (simp add: isspace_def)

lemma startswith_hash: "startswith s ''#'' \<longleftrightarrow> (\<exists>t. s = CHR ''#'' # t)"
  by (cases s) (auto simp: startswith_def)

lemma split_hash_nonempty: "startswith s ''#'' \<Longrightarrow> split s \<noteq> []"
  by (auto simp: startswith_hash split_def hash_not_space split_from_word_nonempty)

lemma fence_not_heading: "is_fence line \<Longrightarrow> \<not> startswith line ''#''"
  by (cases line) (auto simp: is_fence_def startswith_def)


section \<open>The loop of \<^verbatim>\<open>parse_file\<close> in closed form\<close>

lemma parse_line_eq:
  "parse_line headings (fenced, toc) line =
     Inr (next_fence fenced line, toc @ line_entries headings (next_fence fenced line) line)"
proof (cases "\<not> next_fence fenced line \<and> startswith line ''#''")
  case True
  then have "split line \<noteq> []"
    by (simp add: split_hash_nonempty)
  then obtain marker rest where "split line = marker # rest"
    by (cases "split line") auto
  with True show ?thesis
    by (auto simp: parse_line_def line_entries_def next_fence_def is_fence_def split_rstrip
          split: if_splits)
next
  case False
  then show ?thesis
    by (auto simp: parse_line_def line_entries_def next_fence_def is_fence_def)
qed

lemma parse_loop_eq:
  "parse_loop headings (fenced, toc) file_handle =
     Inr (foldl next_fence fenced file_handle, toc @ entries_from headings fenced file_handle)"
  by (induction file_handle arbitrary: fenced toc) (simp_all add: parse_line_eq)

lemma parse_file_eq: "parse_file file_handle headings = Inr (entries_from headings False file_handle)"
  by (simp add: parse_file_def parse_loop_eq)

lemma entries_from_append:
  "entries_from headings fenced (xs @ ys) =
     entries_from headings fenced xs @ entries_from headings (foldl next_fence fenced xs) ys"
  by (induction xs arbitrary: fenced) simp_all

lemma foldl_next_fence: "foldl next_fence fenced pre = (fenced \<noteq> inside_fence pre)"
  by (induction pre arbitrary: fenced) (auto simp: inside_fence_def next_fence_def)

lemma length_line_entries: "length (line_entries headings fenced line) \<le> 1"
  by (simp add: line_entries_def split: list.splits)

lemma length_entries_from: "length (entries_from headings fenced file_handle) \<le> length file_handle"
proof (induction file_handle arbitrary: fenced)
  case Nil
  show ?case by simp
next
  case (Cons line rest)
  have "length (line_entries headings (next_fence fenced line) line) \<le> 1"
    by (rule length_line_entries)
  moreover have "length (entries_from headings (next_fence fenced line) rest) \<le> length rest"
    by (rule Cons.IH)
  ultimately show ?case by simp
qed


section \<open>Evaluation on concrete inputs\<close>


lemmas string_eval = startswith_def rstrip_def split_def isspace_def lower_def lower_char_def
  upper_letters_def lower_letters_def toc_line_def

lemmas parse_eval = parse_file_def parse_line_def is_fence_def inside_fence_def WHITELIST_def


section \<open>Tokens, titles and anchors\<close>


lemma split_from_tokens:
  "\<forall>c \<in> set word. \<not> isspace c \<Longrightarrow> t \<in> set (split_from word s)
     \<Longrightarrow> t \<noteq> [] \<and> (\<forall>c \<in> set t. \<not> isspace c)"
proof (induction s arbitrary: word)
  case Nil
  then show ?case by (auto split: if_splits)
next
  case (Cons c s)
  show ?case
  proof (cases "isspace c")
    case True
    with Cons.prems have "t = word \<and> word \<noteq> [] \<or> t \<in> set (split_from [] s)"
      by (auto split: if_splits)
    then show ?thesis
      using Cons.IH [of "[]"] Cons.prems(1) by auto
  next
    case False
    with Cons.prems have "t \<in> set (split_from (word @ [c]) s)"
      by simp
    moreover have "\<forall>c' \<in> set (word @ [c]). \<not> isspace c'"
      using Cons.prems(1) False by simp
    ultimately show ?thesis
      using Cons.IH by blast
  qed
qed

lemma split_tokens: "t \<in> set (split s) \<Longrightarrow> t \<noteq> [] \<and> (\<forall>c \<in> set t. \<not> isspace c)"
  unfolding split_def by (rule split_from_tokens [of "[]"]) simp_all

lemma split_from_word: "\<forall>c \<in> set t. \<not> isspace c \<Longrightarrow> split_from word (t @ s) = split_from (word @ t) s"
  by (induction t arbitrary: word) simp_all

lemma space_isspace: "isspace (CHR '' '')"
  by (simp add: isspace_def)

lemma split_from_join:
  "\<forall>t \<in> set ts. t \<noteq> [] \<and> (\<forall>c \<in> set t. \<not> isspace c) \<Longrightarrow> split_from [] (join '' '' ts) = ts"
proof (induction "'' ''" ts rule: join.induct)
  case 1
  show ?case by simp
next
  case (2 x)
  then have "split_from [] (x @ []) = split_from ([] @ x) []"
    by (intro split_from_word) simp
  with 2 show ?case by simp
next
  case (3 x y ys)
  then have x: "x \<noteq> []" "\<forall>c \<in> set x. \<not> isspace c"
    by simp_all
  have "split_from [] (x @ '' '' @ join '' '' (y # ys)) = split_from ([] @ x) ('' '' @ join '' '' (y # ys))"
    using x(2) by (rule split_from_word)
  also have "\<dots> = x # split_from [] (join '' '' (y # ys))"
    using x(1) by (simp add: space_isspace)
  also have "split_from [] (join '' '' (y # ys)) = y # ys"
    using 3 by simp
  finally show ?case by simp
qed

lemma split_join_tokens: "split (join '' '' (tl (split s))) = tl (split s)"
proof -
  have "\<forall>t \<in> set (tl (split s)). t \<noteq> [] \<and> (\<forall>c \<in> set t. \<not> isspace c)"
    by (metis list.set_sel(2) split_tokens tl_Nil)
  then show ?thesis
    unfolding split_def [of "join '' '' (tl (split s))"] by (rule split_from_join)
qed

lemma hyphenate_token:
  "CHR '' '' \<notin> set x \<Longrightarrow> map (\<lambda>c. if c = CHR '' '' then CHR ''-'' else c) x = x"
  by (induction x) auto

lemma join_hyphen:
  "\<forall>t \<in> set ts. CHR '' '' \<notin> set t \<Longrightarrow>
     join ''-'' ts = map (\<lambda>c. if c = CHR '' '' then CHR ''-'' else c) (join '' '' ts)"
proof (induction ts rule: induct_list012)
  case 1
  show ?case by simp
next
  case (2 x)
  then have "map (\<lambda>c. if c = CHR '' '' then CHR ''-'' else c) x = x"
    by (simp add: hyphenate_token)
  then show ?case by simp
next
  case (3 x y zs)
  then have "map (\<lambda>c. if c = CHR '' '' then CHR ''-'' else c) x = x"
    by (simp add: hyphenate_token)
  with 3 show ?case by simp
qed

lemma anchor_from_title:
  "lower (join ''-'' (tl (split s))) =
     lower (map (\<lambda>c. if c = CHR '' '' then CHR ''-'' else c) (join '' '' (tl (split s))))"
proof -
  have "\<forall>t \<in> set (tl (split s)). CHR '' '' \<notin> set t"
    by (metis list.set_sel(2) space_isspace split_tokens tl_Nil)
  then show ?thesis
    by (simp add: join_hyphen)
qed


section \<open>Lines inside and outside fenced blocks\<close>


lemma parse_file_around_heading:
  assumes "\<not> inside_fence pre" and "startswith line ''#''"
  shows "parse_file (pre @ line # post) headings =
           Inr (entries_from headings False pre @ line_entries headings False line
                 @ entries_from headings False post)"
proof -
  have "\<not> is_fence line"
    using assms(2) fence_not_heading by blast
  then have "next_fence False line = False"
    by (simp add: next_fence_def)
  moreover have "foldl next_fence False pre = False"
    using assms(1) by (simp add: foldl_next_fence)
  ultimately show ?thesis
    by (simp add: parse_file_eq entries_from_append)
qed

lemma parse_file_inside_fence:
  assumes "inside_fence pre" and "\<not> is_fence line"
  shows "parse_file (pre @ line # post) headings = parse_file (pre @ post) headings"
proof -
  have "foldl next_fence False pre = True"
    using assms(1) by (simp add: foldl_next_fence)
  moreover have "next_fence True line = True"
    using assms(2) by (simp add: next_fence_def)
  moreover have "line_entries headings True line = []"
    by (simp add: line_entries_def)
  ultimately show ?thesis
    by (simp add: parse_file_eq entries_from_append)
qed

lemma parse_loop_fence_line:
  assumes "is_fence line"
  shows "parse_loop headings (False, []) (pre @ [line]) =
           Inr (\<not> inside_fence pre, entries_from headings False pre)"
proof -
  have "line_entries headings fenced line = []" for fenced
    using assms fence_not_heading by (simp add: line_entries_def)
  then show ?thesis
    using assms by (simp add: parse_loop_eq entries_from_append foldl_next_fence next_fence_def)
qed


section \<open>The extractor against its specification\<close>


text \<open>
  C1. For every sequence of lines and every level set: a line that starts with \<open>#\<close> and
  stands inside a fenced block (an odd number of lines beginning with three backticks
  precede it) adds no entry, so the table of contents is the one of the input without that
  line. The flag of the loop after any lines \<open>pre\<close> is \<open>inside_fence pre\<close>; a line beginning
  with three backticks negates the flag and leaves the table of contents as it was, so it
  is never emitted itself.
\<close>

theorem fenced_lines_emit_nothing:
  "(inside_fence pre \<and> startswith line ''#'' \<longrightarrow>
      parse_file (pre @ line # post) headings = parse_file (pre @ post) headings)
   \<and> (\<exists>toc. parse_loop headings (False, []) pre = Inr (inside_fence pre, toc)
        \<and> (is_fence line \<longrightarrow>
             parse_loop headings (False, []) (pre @ [line]) = Inr (\<not> inside_fence pre, toc)))"
proof (intro conjI impI)
  assume "inside_fence pre \<and> startswith line ''#''"
  then show "parse_file (pre @ line # post) headings = parse_file (pre @ post) headings"
    using fence_not_heading parse_file_inside_fence by blast
next
  have "parse_loop headings (False, []) pre = Inr (inside_fence pre, entries_from headings False pre)"
    by (simp add: parse_loop_eq foldl_next_fence)
  then show "\<exists>toc. parse_loop headings (False, []) pre = Inr (inside_fence pre, toc)
        \<and> (is_fence line \<longrightarrow>
             parse_loop headings (False, []) (pre @ [line]) = Inr (\<not> inside_fence pre, toc))"
    using parse_loop_fence_line by blast
qed

theorem fenced_lines_emit_nothing_witness:
  "inside_fence [''```bash''] \<and> startswith ''# not a heading'' ''#''
   \<and> parse_file ([''```bash''] @ ''# not a heading'' # [''```'', ''## Usage'']) WHITELIST
       = Inr [''[Usage](#usage)'']
   \<and> is_fence ''```''
   \<and> parse_loop WHITELIST (False, []) ([''```bash''] @ [''```'']) = Inr (False, [])"
proof -
  have h: "inside_fence [''```bash''] \<and> startswith ''# not a heading'' ''#''"
    by (simp add: parse_eval string_eval)
  have f: "is_fence ''```''"
    by (simp add: parse_eval string_eval)
  have without: "parse_file ([''```bash''] @ [''```'', ''## Usage'']) WHITELIST = Inr [''[Usage](#usage)'']"
    by (simp add: parse_eval string_eval)
  have before: "parse_loop WHITELIST (False, []) [''```bash''] = Inr (True, [])"
    by (simp add: parse_eval string_eval)
  note inst = fenced_lines_emit_nothing [where pre = "[''```bash'']" and post = "[''```'', ''## Usage'']" and headings = WHITELIST]
  have "parse_file ([''```bash''] @ ''# not a heading'' # [''```'', ''## Usage'']) WHITELIST
          = Inr [''[Usage](#usage)'']"
    using inst [where line = "''# not a heading''"] h without by simp
  moreover have "parse_loop WHITELIST (False, []) ([''```bash''] @ [''```'']) = Inr (False, [])"
    using inst [where line = "''```''"] f h before by auto
  ultimately show ?thesis
    using h f by blast
qed

text \<open>
  C2. A line that starts with \<open>#\<close> outside a fenced block has a first token; when that
  token is in the level set, the output is the entries of the lines before it, then exactly one entry for
  the line, then the entries of the lines after it; when the first token is not in the
  level set, the line adds nothing. The entries are in the order of their lines.
\<close>

theorem heading_outside_fence:
  assumes "\<not> inside_fence pre" and "startswith line ''#''"
  shows "split line \<noteq> []
         \<and> (\<exists>before after.
           parse_file pre headings = Inr before \<and> parse_file post headings = Inr after
           \<and> (if hd (split line) \<in> set headings
               then \<exists>entry. parse_file (pre @ line # post) headings = Inr (before @ [entry] @ after)
               else parse_file (pre @ line # post) headings = Inr (before @ after)))"
proof -
  have nonempty: "split line \<noteq> []"
    using assms(2) by (rule split_hash_nonempty)
  then obtain marker rest where tokens: "split line = marker # rest"
    by (cases "split line") auto
  have "parse_file (pre @ line # post) headings =
          Inr (entries_from headings False pre @ line_entries headings False line
                @ entries_from headings False post)"
    using assms by (rule parse_file_around_heading)
  moreover have "line_entries headings False line =
      (if hd (split line) \<in> set headings
       then [toc_line (join '' '' rest) (lower (join ''-'' rest))] else [])"
    using assms(2) tokens by (simp add: line_entries_def)
  ultimately show ?thesis
    using nonempty by (auto simp: parse_file_eq)
qed

theorem heading_outside_fence_witness:
  "\<not> inside_fence [''intro''] \<and> startswith ''## Usage'' ''#''
   \<and> hd (split ''## Usage'') \<in> set WHITELIST
   \<and> (\<exists>entry. parse_file ([''intro''] @ ''## Usage'' # [''# End'']) WHITELIST
         = Inr ([] @ [entry] @ [''[End](#end)'']))
   \<and> hd (split ''## Usage'') \<notin> set [''#'']
   \<and> parse_file ([''intro''] @ ''## Usage'' # [''# End'']) [''#''] = Inr ([] @ [''[End](#end)''])"
proof -
  have h1: "\<not> inside_fence [''intro'']" and h2: "startswith ''## Usage'' ''#''"
    by (simp_all add: parse_eval string_eval)
  have m1: "hd (split ''## Usage'') \<in> set WHITELIST" and m2: "hd (split ''## Usage'') \<notin> set [''#'']"
    by (simp_all add: parse_eval string_eval)
  have pre: "parse_file [''intro''] hs = Inr []" for hs
    by (simp add: parse_eval string_eval)
  have post: "parse_file [''# End''] WHITELIST = Inr [''[End](#end)'']"
    "parse_file [''# End''] [''#''] = Inr [''[End](#end)'']"
    by (simp_all add: parse_eval string_eval)
  have "\<exists>entry. parse_file ([''intro''] @ ''## Usage'' # [''# End'']) WHITELIST
         = Inr ([] @ [entry] @ [''[End](#end)''])"
    using heading_outside_fence [OF h1 h2, where post = "[''# End'']" and headings = WHITELIST] m1 pre post(1) by auto
  moreover have "parse_file ([''intro''] @ ''## Usage'' # [''# End'']) [''#''] = Inr ([] @ [''[End](#end)''])"
    using heading_outside_fence [OF h1 h2, where post = "[''# End'']" and headings = "[''#'']"] m2 pre post(2) by auto
  ultimately show ?thesis
    using h1 h2 m1 m2 by blast
qed

text \<open>
  C3. For a kept heading line with the tokens \<open>marker # rest\<close>, the entry is rendered from
  the title \<open>join '' '' rest\<close> and the anchor \<open>lower (join ''-'' rest)\<close>. The title splits
  back into exactly the tokens \<open>rest\<close>, so runs of whitespace of the source are single
  spaces in it, and the anchor is the title with each space replaced by one hyphen, in
  lower case.
\<close>

theorem heading_title_and_anchor:
  assumes "\<not> inside_fence pre" and "startswith line ''#''"
    and "split line = marker # rest" and "marker \<in> set headings"
  shows "\<exists>before after.
           parse_file pre headings = Inr before \<and> parse_file post headings = Inr after
           \<and> parse_file (pre @ line # post) headings =
               Inr (before @ [toc_line (join '' '' rest) (lower (join ''-'' rest))] @ after)
           \<and> split (join '' '' rest) = rest
           \<and> lower (join ''-'' rest) =
               lower (map (\<lambda>c. if c = CHR '' '' then CHR ''-'' else c) (join '' '' rest))"
proof -
  have "parse_file (pre @ line # post) headings =
          Inr (entries_from headings False pre @ line_entries headings False line
                @ entries_from headings False post)"
    using assms(1,2) by (rule parse_file_around_heading)
  moreover have "line_entries headings False line = [toc_line (join '' '' rest) (lower (join ''-'' rest))]"
    using assms(2,3,4) by (simp add: line_entries_def)
  moreover have "split (join '' '' rest) = rest"
    using split_join_tokens [of line] assms(3) by simp
  moreover have "lower (join ''-'' rest) =
      lower (map (\<lambda>c. if c = CHR '' '' then CHR ''-'' else c) (join '' '' rest))"
    using anchor_from_title [of line] assms(3) by simp
  ultimately show ?thesis
    by (simp add: parse_file_eq)
qed

theorem heading_title_and_anchor_witness:
  "\<not> inside_fence [] \<and> startswith ''#  My   Project Name  '' ''#''
   \<and> split ''#  My   Project Name  '' = ''#'' # [''My'', ''Project'', ''Name'']
   \<and> ''#'' \<in> set WHITELIST
   \<and> parse_file ([] @ ''#  My   Project Name  '' # [''## Setup'']) WHITELIST =
        Inr [''[My Project Name](#my-project-name)'', ''[Setup](#setup)'']"
proof -
  have h1: "\<not> inside_fence []" and h2: "startswith ''#  My   Project Name  '' ''#''"
    and h3: "split ''#  My   Project Name  '' = ''#'' # [''My'', ''Project'', ''Name'']"
    and h4: "''#'' \<in> set WHITELIST"
    by (simp_all add: parse_eval string_eval)
  have pre: "parse_file [] WHITELIST = Inr []"
    and post: "parse_file [''## Setup''] WHITELIST = Inr [''[Setup](#setup)'']"
    by (simp_all add: parse_eval string_eval)
  have entry: "toc_line (join '' '' [''My'', ''Project'', ''Name''])
      (lower (join ''-'' [''My'', ''Project'', ''Name''])) = ''[My Project Name](#my-project-name)''"
    by (simp add: string_eval)
  have "parse_file ([] @ ''#  My   Project Name  '' # [''## Setup'']) WHITELIST =
        Inr [''[My Project Name](#my-project-name)'', ''[Setup](#setup)'']"
    using heading_title_and_anchor [OF h1 h2 h3 h4, where post = "[''## Setup'']"] pre post entry
    by auto
  then show ?thesis
    using h1 h2 h3 h4 by blast
qed

text \<open>
  C7. A heading line outside a fenced block whose only token is a marker of the level set
  (such as the line \<open>##\<close>) is still emitted, as the entry with empty title and empty anchor,
  rendered \<open>[](#)\<close>.
\<close>

theorem empty_heading_emitted:
  assumes "\<not> inside_fence pre" and "startswith line ''#''"
    and "split line = [marker]" and "marker \<in> set headings"
  shows "\<exists>before after.
           parse_file pre headings = Inr before \<and> parse_file post headings = Inr after
           \<and> parse_file (pre @ line # post) headings = Inr (before @ [''[](#)''] @ after)"
proof -
  have "parse_file (pre @ line # post) headings =
          Inr (entries_from headings False pre @ line_entries headings False line
                @ entries_from headings False post)"
    using assms(1,2) by (rule parse_file_around_heading)
  moreover have "line_entries headings False line = [''[](#)'']"
    using assms(2,3,4) by (simp add: line_entries_def toc_line_def lower_def)
  ultimately show ?thesis
    by (simp add: parse_file_eq)
qed

theorem empty_heading_emitted_witness:
  "\<not> inside_fence [''# Title''] \<and> startswith ''##'' ''#'' \<and> split ''##'' = [''##'']
   \<and> ''##'' \<in> set WHITELIST
   \<and> parse_file ([''# Title''] @ ''##'' # []) WHITELIST = Inr [''[Title](#title)'', ''[](#)'']"
proof -
  have h1: "\<not> inside_fence [''# Title'']" and h2: "startswith ''##'' ''#''"
    and h3: "split ''##'' = [''##'']" and h4: "''##'' \<in> set WHITELIST"
    by (simp_all add: parse_eval string_eval)
  have pre: "parse_file [''# Title''] WHITELIST = Inr [''[Title](#title)'']"
    and post: "parse_file [] WHITELIST = Inr []"
    by (simp_all add: parse_eval string_eval)
  have "parse_file ([''# Title''] @ ''##'' # []) WHITELIST = Inr [''[Title](#title)'', ''[](#)'']"
    using empty_heading_emitted [OF h1 h2 h3 h4, where post = "[]"] pre post by auto
  then show ?thesis
    using h1 h2 h3 h4 by blast
qed

text \<open>
  C8. \<^verbatim>\<open>parse_file\<close> returns a table of contents for every sequence of lines and every
  level set, with at most one entry per line; no line makes the loop body raise, and a line
  that starts with \<open>#\<close> has at least one token after \<^verbatim>\<open>rstrip().split()\<close>, so that
  \<^verbatim>\<open>tokens[0]\<close> is safe.
\<close>

theorem parse_file_never_raises:
  "(\<exists>toc. parse_file file_handle headings = Inr toc \<and> length toc \<le> length file_handle)
   \<and> (\<exists>st'. parse_line headings st line = Inr st')
   \<and> (startswith line ''#'' \<longrightarrow> split (rstrip line) \<noteq> [])"
proof (intro conjI impI)
  show "\<exists>toc. parse_file file_handle headings = Inr toc \<and> length toc \<le> length file_handle"
    by (simp add: parse_file_eq length_entries_from)
  show "\<exists>st'. parse_line headings st line = Inr st'"
    by (cases st) (simp add: parse_line_eq)
  show "split (rstrip line) \<noteq> []" if "startswith line ''#''"
    using that by (simp add: split_rstrip split_hash_nonempty)
qed

theorem parse_file_never_raises_witness:
  "startswith ''##'' ''#'' \<and> split (rstrip ''##'') \<noteq> []"
proof -
  have h: "startswith ''##'' ''#''"
    by (simp add: startswith_def)
  show ?thesis
    using h parse_file_never_raises [where line = "''##''"] by blast
qed


section \<open>The level set and the invocation layer against their specification\<close>


lemmas main_eval = main_def script_def get_heading_whitelist_def valid_path_def
  set_win_clipboard_def py_index_def str_int_def str_nat.simps digit_char_def
  invalid_path_message_def invalid_format_message_def no_headers_message_def

lemma get_heading_whitelist_effects:
  "snd (get_heading_whitelist ws) = [] \<or> (\<exists>msg. snd (get_heading_whitelist ws) = [Print msg])"
  by (auto simp: get_heading_whitelist_def split: option.splits prod.splits)

lemma get_heading_whitelist_no_clipboard: "SetClipboard s \<notin> set (snd (get_heading_whitelist ws))"
  using get_heading_whitelist_effects [of ws] by auto

lemma valid_path_True: "valid_path p = (True, tr) \<Longrightarrow> tr = []"
  by (simp add: valid_path_def split: if_splits)

lemma main_cases:
  "main a =
     (let hw = get_heading_whitelist (whitelist a)
      in if \<not> fst (valid_path (path a)) then (Inr 1, snd hw @ snd (valid_path (path a)))
         else (case path_read (path a) of
                 Inl strerror \<Rightarrow> (Inr 1, snd hw @ [Print strerror])
               | Inr file_handle \<Rightarrow>
                   (let results = entries_from (fst hw) False file_handle;
                        final = (if alphabetical a then sort results else results)
                    in if results = [] then (Inr 1, snd hw @ [Print no_headers_message])
                       else (Inr 0, snd hw @ (if output_opt a then map Print final else [])
                                     @ (if clipboard a then [SetClipboard (join [CHR 0x0A] final)] else [])))))"
  by (auto simp: main_def Let_def parse_file_eq set_win_clipboard_def
      dest: valid_path_True split: prod.splits sum.splits)

lemma whitelist_loop_valid:
  "\<forall>n \<in> set xs. 1 \<le> n \<and> n \<le> 6 \<Longrightarrow>
     whitelist_loop xs acc = (acc @ map (\<lambda>n. replicate (nat n) (CHR ''#'')) xs, None)"
proof (induction xs arbitrary: acc)
  case Nil
  show ?case by simp
next
  case (Cons n xs)
  then have "n = 1 \<or> n = 2 \<or> n = 3 \<or> n = 4 \<or> n = 5 \<or> n = 6"
    by auto
  then have "py_index WHITELIST (n - 1) = Inr (replicate (nat n) (CHR ''#''))"
    by (auto simp: py_index_def WHITELIST_def eval_nat_numeral)
  with Cons show ?case by simp
qed

lemma get_heading_whitelist_valid:
  assumes "xs \<noteq> []" and "\<forall>n \<in> set xs. 1 \<le> n \<and> n \<le> 6"
  shows "get_heading_whitelist (Some xs) = (map (\<lambda>n. replicate (nat n) (CHR ''#'')) xs, [])"
  using assms by (simp add: get_heading_whitelist_def whitelist_loop_valid)

lemma script_exit_status_zero: "fst (script a) = 0"
  by (simp add: script_def main_cases Let_def split: sum.splits)

text \<open>
  C4. The level set resolved from a whitelist of integers. A whitelist of integers from 1
  to 6 only gives their markers in order, with nothing printed
  (\<open>get_heading_whitelist_valid\<close>). Outside that range the code departs from the
  specification: \<^verbatim>\<open>WHITELIST[i - 1]\<close> reads from the back for \<open>i\<close> from \<open>-5\<close> to \<open>0\<close>, so that
  \<open>0\<close> is taken as the marker of level 6 with no diagnostic and no fallback, and the first
  value that raises ends the loop, so that the valid \<open>2\<close> after the invalid \<open>7\<close> is lost and
  only that first value is reported.
\<close>

theorem get_heading_whitelist_invalid_levels:
  "get_heading_whitelist (Some [0]) = ([''######''], [])
   \<and> get_heading_whitelist (Some [1, 7, 2]) = ([''#''], [Print ''[-w] Invalid argument: 7''])"
  by (simp add: main_eval WHITELIST_def)

lemma main_document_order:
  assumes "fst (main a) = Inr 0" and "\<not> alphabetical a"
  shows "\<exists>file_handle results.
           path_read (path a) = Inr file_handle
           \<and> parse_file file_handle (fst (get_heading_whitelist (whitelist a))) = Inr results
           \<and> snd (main a) = snd (get_heading_whitelist (whitelist a))
                @ (if output_opt a then map Print results else [])
                @ (if clipboard a then [SetClipboard (join [CHR 0x0A] results)] else [])"
proof -
  from assms(1) obtain file_handle where fh: "path_read (path a) = Inr file_handle"
    and ok: "fst (valid_path (path a))"
    by (auto simp: main_cases Let_def split: if_splits sum.splits)
  define results where "results = entries_from (fst (get_heading_whitelist (whitelist a))) False file_handle"
  from assms(1) fh ok have "results \<noteq> []"
    by (auto simp: main_cases Let_def results_def split: if_splits)
  then have "snd (main a) = snd (get_heading_whitelist (whitelist a))
                @ (if output_opt a then map Print results else [])
                @ (if clipboard a then [SetClipboard (join [CHR 0x0A] results)] else [])"
    using fh ok assms(2) by (simp add: main_cases Let_def results_def)
  moreover have "parse_file file_handle (fst (get_heading_whitelist (whitelist a))) = Inr results"
    by (simp add: parse_file_eq results_def)
  ultimately show ?thesis
    using fh by blast
qed

text \<open>
  C5. In alphabetical mode the entries are to come out in the order of their titles. The
  code calls \<^verbatim>\<open>sorted(results)\<close> on the rendered lines \<open>[title](#anchor)\<close>, so a title is
  compared together with the closing bracket that follows it. For the headings \<open>A\<close> and
  \<open>A B\<close> the order by title is \<open>A\<close>, \<open>A B\<close>, but the run prints the line of \<open>A B\<close> first, a
  space being smaller than the closing bracket. Without the option the document order is
  kept (\<open>main_document_order\<close>).
\<close>

theorem alphabetical_title_prefix_order:
  "parse_file [''# A'', ''# A B''] WHITELIST = Inr [toc_line ''A'' ''a'', toc_line ''A B'' ''a-b'']
   \<and> spec_sort_by_title [(''A'', ''a''), (''A B'', ''a-b'')]
       = [toc_line ''A'' ''a'', toc_line ''A B'' ''a-b'']
   \<and> snd (main \<lparr>path = \<lparr>path_exists = True, path_suffix = ''.md'',
                          path_read = Inr [''# A'', ''# A B'']\<rparr>,
                  alphabetical = True, clipboard = False, output_opt = True, whitelist = None\<rparr>)
       = map Print [toc_line ''A B'' ''a-b'', toc_line ''A'' ''a'']
   \<and> snd (main \<lparr>path = \<lparr>path_exists = True, path_suffix = ''.md'',
                          path_read = Inr [''# A'', ''# A B'']\<rparr>,
                  alphabetical = True, clipboard = False, output_opt = True, whitelist = None\<rparr>)
       \<noteq> map Print (spec_sort_by_title [(''A'', ''a''), (''A B'', ''a-b'')])"
  by (simp add: main_eval parse_eval string_eval spec_sort_by_title_def)

text \<open>
  C6. For a path that does not exist \<^verbatim>\<open>main\<close> prints the message and returns 1 without
  reading the file, but the script body drops that value, and the status of the process
  is 0. By \<open>script_exit_status_zero\<close> the same holds for every run in which \<^verbatim>\<open>main\<close>
  is entered with parsed arguments and lines that were read as text.
\<close>

theorem script_exit_status_missing_file:
  "main \<lparr>path = \<lparr>path_exists = False, path_suffix = ''.md'', path_read = Inl ''No such file or directory''\<rparr>,
      alphabetical = False, clipboard = True, output_opt = True, whitelist = None\<rparr>
     = (Inr 1, [Print ''ERROR:  Invalid path or destination.''])
   \<and> script \<lparr>path = \<lparr>path_exists = False, path_suffix = ''.md'', path_read = Inl ''No such file or directory''\<rparr>,
      alphabetical = False, clipboard = True, output_opt = True, whitelist = None\<rparr>
     = (0, [Print ''ERROR:  Invalid path or destination.''])"
  by (simp add: main_eval)

text \<open>
  C9. When \<^verbatim>\<open>main\<close> returns 1, its effects are what resolving the whitelist printed,
  followed by one printed message (for the path, the format, the \<^verbatim>\<open>OSError\<close> or the
  missing headers): the clipboard is not set and no entry is printed. A run that returns
  0 or sets the clipboard has read the file and extracted at least one entry.
\<close>

theorem main_failure_effects:
  "(fst (main a) = Inr 1 \<longrightarrow>
      (\<forall>s. SetClipboard s \<notin> set (snd (main a)))
      \<and> (\<exists>msg. snd (main a) = snd (get_heading_whitelist (whitelist a)) @ [Print msg]
            \<and> (msg = invalid_path_message \<or> msg = invalid_format_message
                \<or> path_read (path a) = Inl msg \<or> msg = no_headers_message)))
   \<and> (fst (main a) = Inr 0 \<or> (\<exists>s. SetClipboard s \<in> set (snd (main a))) \<longrightarrow>
        (\<exists>file_handle results.
           path_read (path a) = Inr file_handle
           \<and> parse_file file_handle (fst (get_heading_whitelist (whitelist a))) = Inr results
           \<and> results \<noteq> []))"
proof (intro conjI impI)
  assume fail: "fst (main a) = Inr 1"
  then have shape: "\<exists>msg. snd (main a) = snd (get_heading_whitelist (whitelist a)) @ [Print msg]
            \<and> (msg = invalid_path_message \<or> msg = invalid_format_message
                \<or> path_read (path a) = Inl msg \<or> msg = no_headers_message)"
    by (auto simp: main_cases Let_def valid_path_def split: if_splits sum.splits)
  then show "\<forall>s. SetClipboard s \<notin> set (snd (main a))"
    using get_heading_whitelist_no_clipboard [of _ "whitelist a"] by auto
  from shape show "\<exists>msg. snd (main a) = snd (get_heading_whitelist (whitelist a)) @ [Print msg]
            \<and> (msg = invalid_path_message \<or> msg = invalid_format_message
                \<or> path_read (path a) = Inl msg \<or> msg = no_headers_message)" .
next
  assume "fst (main a) = Inr 0 \<or> (\<exists>s. SetClipboard s \<in> set (snd (main a)))"
  then have "fst (main a) = Inr 0"
    using get_heading_whitelist_no_clipboard [of _ "whitelist a"]
    by (auto simp: main_cases Let_def valid_path_def split: if_splits sum.splits)
  then show "\<exists>file_handle results.
           path_read (path a) = Inr file_handle
           \<and> parse_file file_handle (fst (get_heading_whitelist (whitelist a))) = Inr results
           \<and> results \<noteq> []"
    by (auto simp: main_cases Let_def parse_file_eq split: if_splits sum.splits)
qed

theorem main_failure_effects_witness:
  "fst (main \<lparr>path = \<lparr>path_exists = True, path_suffix = ''.md'', path_read = Inr [''plain text'']\<rparr>,
               alphabetical = False, clipboard = True, output_opt = True, whitelist = None\<rparr>) = Inr 1
   \<and> (\<forall>s. SetClipboard s \<notin> set (snd (main
         \<lparr>path = \<lparr>path_exists = True, path_suffix = ''.md'', path_read = Inr [''plain text'']\<rparr>,
          alphabetical = False, clipboard = True, output_opt = True, whitelist = None\<rparr>)))
   \<and> SetClipboard ''[A](#a)'' \<in> set (snd (main
         \<lparr>path = \<lparr>path_exists = True, path_suffix = ''.md'', path_read = Inr [''# A'']\<rparr>,
          alphabetical = False, clipboard = True, output_opt = False, whitelist = None\<rparr>))
   \<and> (\<exists>results. parse_file [''# A''] WHITELIST = Inr results \<and> results \<noteq> [])"
proof -
  let ?a1 = "\<lparr>path = \<lparr>path_exists = True, path_suffix = ''.md'', path_read = Inr [''plain text'']\<rparr>,
               alphabetical = False, clipboard = True, output_opt = True, whitelist = None\<rparr>"
  let ?a2 = "\<lparr>path = \<lparr>path_exists = True, path_suffix = ''.md'', path_read = Inr [''# A'']\<rparr>,
               alphabetical = False, clipboard = True, output_opt = False, whitelist = None\<rparr>"
  have h1: "fst (main ?a1) = Inr 1"
    by (simp add: main_eval parse_eval string_eval)
  have h2: "SetClipboard ''[A](#a)'' \<in> set (snd (main ?a2))"
    by (simp add: main_eval parse_eval string_eval)
  have hw: "get_heading_whitelist (whitelist ?a2) = (WHITELIST, [])"
    by (simp add: main_eval)
  have "\<forall>s. SetClipboard s \<notin> set (snd (main ?a1))"
    using main_failure_effects [of ?a1] h1 by blast
  moreover have "\<exists>results. parse_file [''# A''] WHITELIST = Inr results \<and> results \<noteq> []"
    using main_failure_effects [of ?a2] h2 hw by auto
  ultimately show ?thesis
    using h1 h2 by blast
qed

text \<open>
  C10. A path that exists and whose suffix in lower case is \<open>.md\<close> or \<open>.markdown\<close> is
  valid, with nothing printed; a path whose suffix in lower case is neither is not valid,
  and one error message is printed.
\<close>

theorem valid_path_case_insensitive:
  "(path_exists p \<and> lower (path_suffix p) \<in> {''.md'', ''.markdown''} \<longrightarrow> valid_path p = (True, []))
   \<and> (lower (path_suffix p) \<notin> {''.md'', ''.markdown''} \<longrightarrow>
        fst (valid_path p) = False
        \<and> (snd (valid_path p) = [Print invalid_path_message]
            \<or> snd (valid_path p) = [Print invalid_format_message]))"
  by (simp add: valid_path_def)

theorem valid_path_case_insensitive_witness:
  "path_exists \<lparr>path_exists = True, path_suffix = ''.MD'', path_read = Inr []\<rparr>
   \<and> lower ''.MD'' \<in> {''.md'', ''.markdown''}
   \<and> valid_path \<lparr>path_exists = True, path_suffix = ''.MD'', path_read = Inr []\<rparr> = (True, [])
   \<and> lower ''.Markdown'' \<in> {''.md'', ''.markdown''}
   \<and> valid_path \<lparr>path_exists = True, path_suffix = ''.Markdown'', path_read = Inr []\<rparr> = (True, [])
   \<and> lower ''.txt'' \<notin> {''.md'', ''.markdown''}
   \<and> fst (valid_path \<lparr>path_exists = True, path_suffix = ''.txt'', path_read = Inr []\<rparr>) = False"
proof -
  have h1: "lower ''.MD'' \<in> {''.md'', ''.markdown''}"
    and h2: "lower ''.Markdown'' \<in> {''.md'', ''.markdown''}"
    and h3: "lower ''.txt'' \<notin> {''.md'', ''.markdown''}"
    by (simp_all add: string_eval)
  have "valid_path \<lparr>path_exists = True, path_suffix = ''.MD'', path_read = Inr []\<rparr> = (True, [])"
    using valid_path_case_insensitive [of "\<lparr>path_exists = True, path_suffix = ''.MD'', path_read = Inr []\<rparr>"] h1
    by auto
  moreover have "valid_path \<lparr>path_exists = True, path_suffix = ''.Markdown'', path_read = Inr []\<rparr> = (True, [])"
    using valid_path_case_insensitive [of "\<lparr>path_exists = True, path_suffix = ''.Markdown'', path_read = Inr []\<rparr>"] h2
    by auto
  moreover have "fst (valid_path \<lparr>path_exists = True, path_suffix = ''.txt'', path_read = Inr []\<rparr>) = False"
    using valid_path_case_insensitive [of "\<lparr>path_exists = True, path_suffix = ''.txt'', path_read = Inr []\<rparr>"] h3
    by auto
  ultimately show ?thesis
    using h1 h2 h3 by simp
qed

end
